theory Spec2Isabelle
  imports Main "HOL-Library.Sublist"
begin

section \<open>Characters and the string helpers used by SmartEditor\<close>

text \<open>
  The editor of \<^verbatim>\<open>PaperSmith.py\<close> works on Python strings, whose elements are code points.
  A \<^typ>\<open>char\<close> stands here for one code point below 256, and \<^typ>\<open>string\<close> for a text over
  that alphabet, so \<^term>\<open>length\<close> counts what Python's \<^verbatim>\<open>len\<close> counts.

  \<^verbatim>\<open>str.strip\<close>, \<^verbatim>\<open>str.lstrip\<close> and the regular-expression class \<^verbatim>\<open>\s\<close> all use the
  same whitespace test; below 256 it holds of the twelve code points listed in
  \<open>isspace\<close>. The class \<^verbatim>\<open>\d\<close> holds below 256 of the ten ASCII digits only.
\<close>

definition nl :: char where
  "nl = CHR 0x0A"

definition isspace :: "char \<Rightarrow> bool" where
  "isspace c \<longleftrightarrow> c \<in> set [CHR 0x09, CHR 0x0A, CHR 0x0B, CHR 0x0C, CHR 0x0D,
      CHR 0x1C, CHR 0x1D, CHR 0x1E, CHR 0x1F, CHR 0x20, CHR 0x85, CHR 0xA0]"

definition isdigit :: "char \<Rightarrow> bool" where
  "isdigit c \<longleftrightarrow> c \<in> set ''0123456789''"

definition lstrip :: "string \<Rightarrow> string" where
  "lstrip s = dropWhile isspace s"

definition rstrip :: "string \<Rightarrow> string" where
  "rstrip s = rev (dropWhile isspace (rev s))"

definition strip :: "string \<Rightarrow> string" where
  "strip s = rstrip (lstrip s)"

definition startswith :: "string \<Rightarrow> string \<Rightarrow> bool" where
  "startswith s p \<longleftrightarrow> take (length p) s = p"


section \<open>Line Classifier: identify_block_type and get_indent\<close>

text \<open>
  The source tags lines with the strings \<^verbatim>\<open>'empty'\<close>, \<^verbatim>\<open>'text'\<close>, \<^verbatim>\<open>'task'\<close>,
  \<^verbatim>\<open>'ul'\<close>, \<^verbatim>\<open>'ol'\<close>, \<^verbatim>\<open>'hr'\<close>, \<^verbatim>\<open>'table'\<close> and (in the scan only)
  \<^verbatim>\<open>'code_fence'\<close>. These eight strings are the constructors below, in that order.
  There is no ninth tag: the source has no string for headings.
\<close>

datatype block_type = Empty | Text | Task | Ul | Ol | Hr | Table | Code_fence

text \<open>The pattern \<^verbatim>\<open>^#{1,6}\s\<close>: one to six hash signs, then a whitespace character.\<close>

definition heading_re :: "string \<Rightarrow> bool" where
  "heading_re s =
    (let n = length (takeWhile (\<lambda>c. c = CHR ''#'') s)
     in 1 \<le> n \<and> n \<le> 6 \<and> (case drop n s of [] \<Rightarrow> False | c # _ \<Rightarrow> isspace c))"

text \<open>The pattern \<^verbatim>\<open>^[-*]\s\[[xX ]\]\<close>.\<close>

definition task_re :: "string \<Rightarrow> bool" where
  "task_re s =
    (case s of
       a # b # c # d # e # _ \<Rightarrow>
         (a = CHR ''-'' \<or> a = CHR ''*'') \<and> isspace b \<and> c = CHR ''['' \<and>
         (d = CHR ''x'' \<or> d = CHR ''X'' \<or> d = CHR '' '') \<and> e = CHR '']''
     | _ \<Rightarrow> False)"

text \<open>The pattern \<^verbatim>\<open>^[-*+]\s\<close>.\<close>

definition ul_re :: "string \<Rightarrow> bool" where
  "ul_re s =
    (case s of
       a # b # _ \<Rightarrow> (a = CHR ''-'' \<or> a = CHR ''*'' \<or> a = CHR ''+'') \<and> isspace b
     | _ \<Rightarrow> False)"

text \<open>The pattern \<^verbatim>\<open>^\d+\.\<close>.\<close>

definition ol_re :: "string \<Rightarrow> bool" where
  "ol_re s =
    (takeWhile isdigit s \<noteq> [] \<and>
     (case dropWhile isdigit s of [] \<Rightarrow> False | c # _ \<Rightarrow> c = CHR ''.''))"

text \<open>
  The pattern \<^verbatim>\<open>^[-*_]{3,}$\<close>. It is only applied to stripped text, which ends in no
  newline, so \<^verbatim>\<open>$\<close> is the end of the string.
\<close>

definition hr_re :: "string \<Rightarrow> bool" where
  "hr_re s =
    (3 \<le> length s \<and> list_all (\<lambda>c. c = CHR ''-'' \<or> c = CHR ''*'' \<or> c = CHR ''_'') s)"

definition identify_block_type :: "string \<Rightarrow> block_type" where
  "identify_block_type text =
    (let clean_text = lstrip text;
         stripped_text = strip clean_text
     in if stripped_text = [] then Empty
        else if heading_re clean_text then Text
        else if task_re clean_text then Task
        else if ul_re clean_text then Ul
        else if ol_re clean_text then Ol
        else if hr_re stripped_text then Hr
        else if startswith stripped_text ''|'' then Table
        else Text)"

definition get_indent :: "string \<Rightarrow> nat" where
  "get_indent text = length (takeWhile isspace text)"


section \<open>Conflict Rule Table: check_conflict\<close>

definition list_types :: "block_type list" where
  "list_types = [Ul, Ol, Task]"

definition check_conflict :: "block_type \<Rightarrow> block_type \<Rightarrow> nat \<Rightarrow> nat \<Rightarrow> bool" where
  "check_conflict t1 t2 i1 i2 =
    (if t1 = Empty then False
     else if t2 = Empty then False
     else if t1 = Text \<and> t2 \<in> set list_types then True
     else if t1 \<in> set list_types \<and> t2 = Text \<and> i2 \<le> i1 then True
     else if t1 \<in> set list_types \<and> t2 \<in> set list_types \<and> t1 \<noteq> t2 \<and> i2 \<le> i1 then True
     else if t1 \<noteq> Table \<and> t2 = Table then True
     else if t1 = Table \<and> t2 \<noteq> Table then True
     else False)"


section \<open>The editing surface\<close>

text \<open>
  The state of the widget that the three handlers read and write: the plain text of the
  document, in which the character \<open>nl\<close> separates two blocks, the text cursor (anchor and
  position, both offsets into the text; there is a selection when they differ), and the
  attribute \<^verbatim>\<open>is_fixing\<close>. A block's position is the offset of its first character, and
  every block separator counts as one position, as in the document of the toolkit.
\<close>

record editor =
  plain_text :: string
  anchor :: nat
  position :: nat
  is_fixing :: bool

text \<open>The blocks of a document, first to last; a document always has at least one.\<close>

fun split_lines :: "string \<Rightarrow> string list" where
  "split_lines [] = [[]]"
| "split_lines (c # cs) =
    (if c = nl then [] # split_lines cs
     else (case split_lines cs of l # ls \<Rightarrow> (c # l) # ls | [] \<Rightarrow> [[c]]))"

text \<open>The block of the cursor at offset \<open>p\<close>: where it starts, and its text.\<close>

definition block_position :: "string \<Rightarrow> nat \<Rightarrow> nat" where
  "block_position t p = p - length (takeWhile (\<lambda>c. c \<noteq> nl) (rev (take p t)))"

definition block_text :: "string \<Rightarrow> nat \<Rightarrow> string" where
  "block_text t p =
    rev (takeWhile (\<lambda>c. c \<noteq> nl) (rev (take p t))) @ takeWhile (\<lambda>c. c \<noteq> nl) (drop p t)"


text \<open>\<^verbatim>\<open>cursor.setPosition(p)\<close> moves anchor and position; with \<^verbatim>\<open>KeepAnchor\<close> only the position.\<close>

definition set_position :: "nat \<Rightarrow> editor \<Rightarrow> editor" where
  "set_position p e = e\<lparr>anchor := p, position := p\<rparr>"


text \<open>
  \<^verbatim>\<open>cursor.insertText(s)\<close> replaces the selection (empty when anchor and position agree) by
  \<open>s\<close> and leaves the cursor, without selection, behind the inserted text.
  \<^verbatim>\<open>cursor.removeSelectedText()\<close> is the case of the empty string, and
  \<^verbatim>\<open>cursor.insertBlock()\<close> the case of one block separator.
\<close>

definition insert_text :: "string \<Rightarrow> editor \<Rightarrow> editor" where
  "insert_text s e =
    (let lo = min (anchor e) (position e);
         hi = max (anchor e) (position e)
     in e\<lparr>plain_text := take lo (plain_text e) @ s @ drop hi (plain_text e),
          anchor := lo + length s,
          position := lo + length s\<rparr>)"

definition remove_selected_text :: "editor \<Rightarrow> editor" where
  "remove_selected_text e = insert_text [] e"

definition insert_block :: "editor \<Rightarrow> editor" where
  "insert_block e = insert_text [nl] e"

text \<open>
  \<^verbatim>\<open>cursor.select(BlockUnderCursor)\<close> first drops any selection. On an empty block it selects
  nothing. Otherwise it selects the text of the block together with the block separator in
  front of it, when the block has a predecessor; the first block of the document has none,
  and there only the text of the block is selected.
\<close>

definition select_block_under_cursor :: "editor \<Rightarrow> editor" where
  "select_block_under_cursor e =
    (let p = position e;
         start = block_position (plain_text e) p;
         stop = start + length (block_text (plain_text e) p)
     in if block_text (plain_text e) p = [] then e\<lparr>anchor := p\<rparr>
        else if start = 0 then e\<lparr>anchor := 0, position := stop\<rparr>
        else e\<lparr>anchor := start - 1, position := stop\<rparr>)"


section \<open>Boundary Repair Pass: auto_fix_spacing\<close>

text \<open>
  The while loop over the blocks of the document. The arguments are the local variables
  \<^verbatim>\<open>insert_positions\<close>, \<^verbatim>\<open>prev_type\<close>, \<^verbatim>\<open>prev_indent\<close> and \<^verbatim>\<open>in_code_block\<close>, then
  \<^verbatim>\<open>block.position()\<close> and the blocks from the current one on. The list \<open>calls\<close> is a
  log that the source does not have: the position of every block that is handed to
  \<open>identify_block_type\<close>. The result is the final \<^verbatim>\<open>insert_positions\<close> and that log.
\<close>

fun scan_blocks ::
  "nat list \<Rightarrow> nat list \<Rightarrow> block_type \<Rightarrow> nat \<Rightarrow> bool \<Rightarrow> nat \<Rightarrow> string list \<Rightarrow> nat list \<times> nat list"
where
  "scan_blocks insert_positions calls prev_type prev_indent in_code_block pos [] =
     (insert_positions, calls)"
| "scan_blocks insert_positions calls prev_type prev_indent in_code_block pos (txt # rest) =
    (let next_pos = pos + length txt + 1
     in if startswith (strip txt) ''```'' then
          scan_blocks insert_positions calls Code_fence 0 (\<not> in_code_block) next_pos rest
        else if in_code_block then
          scan_blocks insert_positions calls prev_type prev_indent in_code_block next_pos rest
        else
          (let curr_type = identify_block_type txt;
               curr_indent = get_indent txt;
               insert_positions' =
                 (if check_conflict prev_type curr_type prev_indent curr_indent
                  then insert_positions @ [pos] else insert_positions)
           in if curr_type \<noteq> Empty then
                scan_blocks insert_positions' (calls @ [pos]) curr_type curr_indent
                  in_code_block next_pos rest
              else
                scan_blocks insert_positions' (calls @ [pos]) Empty 0
                  in_code_block next_pos rest))"

definition scan_document :: "string \<Rightarrow> nat list \<times> nat list" where
  "scan_document t = scan_blocks [] [] Empty 0 False 0 (split_lines t)"

definition insert_positions_of :: "string \<Rightarrow> nat list" where
  "insert_positions_of t = fst (scan_document t)"

definition classifier_calls_of :: "string \<Rightarrow> nat list" where
  "classifier_calls_of t = snd (scan_document t)"

text \<open>
  The for loop over \<^verbatim>\<open>reversed(insert_positions)\<close>: the first argument is the list in the
  order in which the loop visits it, the second the document with the local cursor, the third
  \<^verbatim>\<open>old_pos\<close>; the result is the document and \<^verbatim>\<open>old_pos\<close> after the loop.
\<close>

fun apply_insertions :: "nat list \<Rightarrow> editor \<Rightarrow> nat \<Rightarrow> editor \<times> nat" where
  "apply_insertions [] e old_pos = (e, old_pos)"
| "apply_insertions (pos # ps) e old_pos =
     apply_insertions ps (insert_text [nl] (set_position pos e))
       (if pos \<le> old_pos then old_pos + 1 else old_pos)"

definition auto_fix_spacing :: "editor \<Rightarrow> editor" where
  "auto_fix_spacing e =
    (if is_fixing e then e
     else
       (let insert_positions = insert_positions_of (plain_text e)
        in if insert_positions = [] then e
           else
             (case apply_insertions (rev insert_positions) (e\<lparr>is_fixing := True\<rparr>) (position e) of
                (e', old_pos) \<Rightarrow> (set_position old_pos e')\<lparr>is_fixing := False\<rparr>)))"


section \<open>List Continuation Controller: keyPressEvent\<close>

text \<open>
  The three patterns of \<^verbatim>\<open>keyPressEvent\<close>, matched at the start of the block's text. Each
  matcher returns the groups that the handler reads.

  \<^verbatim>\<open>^(\s*)([-*]) \[[xX ]\]\s+\<close> gives group 1, group 2 and the whole match (group 0).
\<close>

definition task_match :: "string \<Rightarrow> (string \<times> char \<times> string) option" where
  "task_match t =
    (let indent = takeWhile isspace t
     in case dropWhile isspace t of
          m # a # b # c # d # rest \<Rightarrow>
            if (m = CHR ''-'' \<or> m = CHR ''*'') \<and> a = CHR '' '' \<and> b = CHR ''['' \<and>
               (c = CHR ''x'' \<or> c = CHR ''X'' \<or> c = CHR '' '') \<and> d = CHR '']'' \<and>
               takeWhile isspace rest \<noteq> []
            then Some (indent, m, indent @ [m, a, b, c, d] @ takeWhile isspace rest)
            else None
        | _ \<Rightarrow> None)"

text \<open>\<^verbatim>\<open>^(\s*)([-*+])\s+\<close> gives group 1 and group 2.\<close>

definition ul_match :: "string \<Rightarrow> (string \<times> char) option" where
  "ul_match t =
    (let indent = takeWhile isspace t
     in case dropWhile isspace t of
          m # rest \<Rightarrow>
            if (m = CHR ''-'' \<or> m = CHR ''*'' \<or> m = CHR ''+'') \<and> takeWhile isspace rest \<noteq> []
            then Some (indent, m) else None
        | _ \<Rightarrow> None)"

text \<open>\<^verbatim>\<open>^(\s*)(\d+)\.\s+\<close> gives group 1 and group 2.\<close>

definition ol_match :: "string \<Rightarrow> (string \<times> string) option" where
  "ol_match t =
    (let indent = takeWhile isspace t;
         r = dropWhile isspace t;
         ds = takeWhile isdigit r
     in case dropWhile isdigit r of
          c # rest \<Rightarrow>
            if ds \<noteq> [] \<and> c = CHR ''.'' \<and> takeWhile isspace rest \<noteq> []
            then Some (indent, ds) else None
        | _ \<Rightarrow> None)"

text \<open>Python's \<^verbatim>\<open>int\<close> on a string of decimal digits, and \<^verbatim>\<open>str\<close> on a natural number.\<close>

definition digit_value :: "char \<Rightarrow> nat" where
  "digit_value c = of_char c - 48"

definition int_of_digits :: "string \<Rightarrow> nat" where
  "int_of_digits ds = foldl (\<lambda>n c. 10 * n + digit_value c) 0 ds"

fun str_of_nat :: "nat \<Rightarrow> string" where
  "str_of_nat n =
    (if n < 10 then [char_of (48 + n)]
     else str_of_nat (n div 10) @ [char_of (48 + n mod 10)])"

definition remove_current_line_marker :: "editor \<Rightarrow> editor" where
  "remove_current_line_marker e =
     insert_block (remove_selected_text (select_block_under_cursor e))"

definition insert_new_line_with_prefix :: "string \<Rightarrow> editor \<Rightarrow> editor" where
  "insert_new_line_with_prefix pfx e = insert_text pfx (insert_text [nl] e)"

datatype key = Key_Return | Key_Enter | Key_Other

text \<open>
  The handler either finishes the key press itself (\<open>Handled\<close>, with the new state of the
  widget) or hands the event to the widget's own \<^verbatim>\<open>keyPressEvent\<close> (\<open>Passed_on\<close>).
\<close>

datatype key_result = Handled editor | Passed_on

definition keyPressEvent :: "key \<Rightarrow> editor \<Rightarrow> key_result" where
  "keyPressEvent k e =
    (if k = Key_Return \<or> k = Key_Enter then
       (let t = block_text (plain_text e) (position e);
            task_m = task_match t;
            ul_m = ul_match t;
            ol_m = ol_match t
        in if (case task_m of Some (_, _, g0) \<Rightarrow> length (strip t) = length (strip g0)
               | None \<Rightarrow> False)
           then Handled (remove_current_line_marker e)
           else if (case ul_m of Some (_, m) \<Rightarrow> strip t = [m] | None \<Rightarrow> False)
           then Handled (remove_current_line_marker e)
           else if (case ol_m of Some (_, ds) \<Rightarrow> strip t = ds @ ''.'' | None \<Rightarrow> False)
           then Handled (remove_current_line_marker e)
           else
             (case task_m of
                Some (indent, m, _) \<Rightarrow>
                  Handled (insert_new_line_with_prefix (indent @ [m] @ '' [ ] '') e)
              | None \<Rightarrow>
                 (case ul_m of
                    Some (indent, m) \<Rightarrow>
                      Handled (insert_new_line_with_prefix (indent @ [m] @ '' '') e)
                  | None \<Rightarrow>
                     (case ol_m of
                        Some (indent, ds) \<Rightarrow>
                          Handled (insert_new_line_with_prefix
                            (indent @ str_of_nat (int_of_digits ds + 1) @ ''. '') e)
                      | None \<Rightarrow> Passed_on))))
     else Passed_on)"


section \<open>Task Toggle Controller: check_task_toggle\<close>






section \<open>Vocabulary for reasoning about the scan\<close>

text \<open>
  Nothing below is part of the program: these are the notions in which the properties of
  the Boundary Repair Pass are stated and proved. \<open>join_lines\<close> is the inverse of
  \<open>split_lines\<close>. A \<open>scan_state\<close> is the triple of \<^verbatim>\<open>prev_type\<close>, \<^verbatim>\<open>prev_indent\<close> and
  \<^verbatim>\<open>in_code_block\<close>; \<open>is_fence\<close>, \<open>needs_insert\<close>, \<open>is_classified\<close> and \<open>next_state\<close>
  describe one round of the loop, \<open>offsets\<close> and \<open>call_offsets\<close> collect what the loop
  appends to its two lists, and \<open>repair_lines\<close> puts an empty block in front of every block
  whose position the loop records. \<open>ins_nl p\<close> is the edit that the pass makes at position
  \<open>p\<close>. \<open>blank_inserted xs ys\<close> says that \<open>ys\<close> is \<open>xs\<close> with empty blocks added and nothing
  else changed. \<open>line_offset ls i\<close> is the position of block \<open>i\<close>, and \<open>fences_before ls i\<close>
  the number of fence lines in front of it.
\<close>

fun join_lines :: "string list \<Rightarrow> string" where
  "join_lines [] = []"
| "join_lines [l] = l"
| "join_lines (l # l' # ls) = l @ nl # join_lines (l' # ls)"

definition is_fence :: "string \<Rightarrow> bool" where
  "is_fence txt \<longleftrightarrow> startswith (strip txt) ''```''"

type_synonym scan_state = "block_type \<times> nat \<times> bool"

definition needs_insert :: "scan_state \<Rightarrow> string \<Rightarrow> bool" where
  "needs_insert s txt =
    (case s of (pt, pi, icb) \<Rightarrow>
       \<not> is_fence txt \<and> \<not> icb \<and> check_conflict pt (identify_block_type txt) pi (get_indent txt))"

definition is_classified :: "scan_state \<Rightarrow> string \<Rightarrow> bool" where
  "is_classified s txt = (case s of (pt, pi, icb) \<Rightarrow> \<not> is_fence txt \<and> \<not> icb)"

definition next_state :: "scan_state \<Rightarrow> string \<Rightarrow> scan_state" where
  "next_state s txt =
    (case s of (pt, pi, icb) \<Rightarrow>
       if is_fence txt then (Code_fence, 0, \<not> icb)
       else if icb then (pt, pi, icb)
       else if identify_block_type txt \<noteq> Empty then (identify_block_type txt, get_indent txt, icb)
       else (Empty, 0, icb))"

fun offsets :: "scan_state \<Rightarrow> nat \<Rightarrow> string list \<Rightarrow> nat list" where
  "offsets s pos [] = []"
| "offsets s pos (l # ls) =
     (if needs_insert s l then [pos] else []) @ offsets (next_state s l) (pos + length l + 1) ls"

fun call_offsets :: "scan_state \<Rightarrow> nat \<Rightarrow> string list \<Rightarrow> nat list" where
  "call_offsets s pos [] = []"
| "call_offsets s pos (l # ls) =
     (if is_classified s l then [pos] else []) @ call_offsets (next_state s l) (pos + length l + 1) ls"

fun repair_lines :: "scan_state \<Rightarrow> string list \<Rightarrow> string list" where
  "repair_lines s [] = []"
| "repair_lines s (l # ls) =
     (if needs_insert s l then [[], l] else [l]) @ repair_lines (next_state s l) ls"

definition ins_nl :: "nat \<Rightarrow> string \<Rightarrow> string" where
  "ins_nl p t = take p t @ nl # drop p t"

definition repaired_text :: "string \<Rightarrow> string" where
  "repaired_text t = join_lines (repair_lines (Empty, 0, False) (split_lines t))"


definition line_offset :: "string list \<Rightarrow> nat \<Rightarrow> nat" where
  "line_offset ls i = sum_list (map (\<lambda>l. length l + 1) (take i ls))"

definition fences_before :: "string list \<Rightarrow> nat \<Rightarrow> nat" where
  "fences_before ls i = length (filter is_fence (take i ls))"



definition fenced_doc :: string where
  "fenced_doc = ''a\<newline>```\<newline>- b\<newline>c\<newline>```\<newline>- d''"




section \<open>Lemmas about blocks, the scan and the insertion loop\<close>

lemma scan_blocks_offsets:
  "scan_blocks ins calls pt pi icb pos ls =
     (ins @ offsets (pt, pi, icb) pos ls, calls @ call_offsets (pt, pi, icb) pos ls)"
proof (induction ls arbitrary: ins calls pt pi icb pos)
  case Nil
  show ?case by simp
next
  case (Cons l ls)
  show ?case
    by (simp add: Cons.IH needs_insert_def is_classified_def next_state_def is_fence_def Let_def)
qed

lemma insert_positions_of_offsets:
  "insert_positions_of t = offsets (Empty, 0, False) 0 (split_lines t)"
  by (simp add: insert_positions_of_def scan_document_def scan_blocks_offsets)

lemma classifier_calls_of_offsets:
  "classifier_calls_of t = call_offsets (Empty, 0, False) 0 (split_lines t)"
  by (simp add: classifier_calls_of_def scan_document_def scan_blocks_offsets)

lemma split_lines_ne: "split_lines t \<noteq> []"
  by (induction t) (auto split: list.splits)

lemma join_split: "join_lines (split_lines t) = t"
proof (induction t)
  case Nil
  show ?case by simp
next
  case (Cons c cs)
  obtain l ls where s: "split_lines cs = l # ls"
    using split_lines_ne [of cs] by (cases "split_lines cs") auto
  show ?case
  proof (cases "c = nl")
    case True
    then show ?thesis using Cons s by simp
  next
    case False
    then show ?thesis using Cons s by (cases ls) auto
  qed
qed





lemma repair_lines_ne: "ls \<noteq> [] \<Longrightarrow> repair_lines s ls \<noteq> []"
  by (cases ls) auto

lemma join_lines_Cons: "ls \<noteq> [] \<Longrightarrow> join_lines (l # ls) = l @ nl # join_lines ls"
  by (cases ls) auto



lemma ins_nl_prefix: "ins_nl (length pre) (pre @ r) = pre @ nl # r"
  by (simp add: ins_nl_def)

lemma foldr_ins_nl_offsets:
  "foldr ins_nl (offsets s (length pre) ls) (pre @ join_lines ls) = pre @ join_lines (repair_lines s ls)"
proof (induction ls arbitrary: s pre)
  case Nil
  show ?case by simp
next
  case (Cons l ls)
  show ?case
  proof (cases ls)
    case Nil
    then show ?thesis using ins_nl_prefix [of pre l] by simp
  next
    case (Cons l' ls')
    let ?pre = "pre @ l @ [nl]"
    let ?s = "next_state s l"
    have ne: "repair_lines ?s ls \<noteq> []" using Cons by (simp add: repair_lines_ne)
    have "foldr ins_nl (offsets ?s (length ?pre) ls) (?pre @ join_lines ls)
            = ?pre @ join_lines (repair_lines ?s ls)"
      by (rule Cons.IH)
    then have ih: "foldr ins_nl (offsets ?s (length pre + length l + 1) ls) (pre @ l @ nl # join_lines ls)
            = pre @ l @ nl # join_lines (repair_lines ?s ls)"
      by (simp add: add.assoc)
    have j: "join_lines (l # ls) = l @ nl # join_lines ls"
      using Cons by simp
    show ?thesis
    proof (cases "needs_insert s l")
      case True
      then show ?thesis using ih j ne by (simp add: ins_nl_prefix join_lines_Cons)
    next
      case False
      then show ?thesis using ih j ne by (simp add: join_lines_Cons)
    qed
  qed
qed









lemma apply_insertions_text:
  "plain_text (fst (apply_insertions qs e c)) = fold ins_nl qs (plain_text e)"
  by (induction qs arbitrary: e c) (simp_all add: insert_text_def set_position_def ins_nl_def)

lemma apply_insertions_fixing:
  "is_fixing (fst (apply_insertions qs e c)) = is_fixing e"
  by (induction qs arbitrary: e c) (simp_all add: insert_text_def set_position_def Let_def)


lemma fold_insertions_text:
  "fold ins_nl (rev (insert_positions_of t)) t = repaired_text t"
proof -
  have "foldr ins_nl (offsets (Empty, 0, False) (length ([]::string)) (split_lines t))
          ([] @ join_lines (split_lines t))
        = [] @ join_lines (repair_lines (Empty, 0, False) (split_lines t))"
    by (rule foldr_ins_nl_offsets)
  then show ?thesis
    by (simp add: insert_positions_of_offsets join_split repaired_text_def foldr_conv_fold)
qed

lemma auto_fix_spacing_text:
  "\<not> is_fixing e \<Longrightarrow> plain_text (auto_fix_spacing e) = repaired_text (plain_text e)"
proof -
  assume nf: "\<not> is_fixing e"
  show ?thesis
  proof (cases "insert_positions_of (plain_text e) = []")
    case True
    then show ?thesis
      using nf fold_insertions_text [of "plain_text e"] by (simp add: auto_fix_spacing_def)
  next
    case False
    obtain e' c where a: "apply_insertions (rev (insert_positions_of (plain_text e)))
        (e\<lparr>is_fixing := True\<rparr>) (position e) = (e', c)" by (cases "apply_insertions (rev (insert_positions_of (plain_text e)))
        (e\<lparr>is_fixing := True\<rparr>) (position e)") auto
    have "plain_text e' = fold ins_nl (rev (insert_positions_of (plain_text e))) (plain_text e)"
      using apply_insertions_text [of "rev (insert_positions_of (plain_text e))" "e\<lparr>is_fixing := True\<rparr>" "position e"] a
      by simp
    then show ?thesis
      using nf False a by (simp add: auto_fix_spacing_def Let_def set_position_def fold_insertions_text)
  qed
qed

lemma auto_fix_spacing_not_fixing:
  "\<not> is_fixing e \<Longrightarrow> \<not> is_fixing (auto_fix_spacing e)"
  by (auto simp: auto_fix_spacing_def Let_def split: prod.splits)








lemma call_offsets_ge: "p \<in> set (call_offsets s pos ls) \<Longrightarrow> pos \<le> p"
proof (induction ls arbitrary: s pos)
  case Nil
  then show ?case by simp
next
  case (Cons l ls)
  then show ?case by (fastforce split: if_splits)
qed

lemma offsets_subset_calls: "set (offsets s pos ls) \<subseteq> set (call_offsets s pos ls)"
proof (induction ls arbitrary: s pos)
  case Nil
  show ?case by simp
next
  case (Cons l ls)
  have "needs_insert s l \<Longrightarrow> is_classified s l"
    by (cases s) (simp add: needs_insert_def is_classified_def)
  then show ?case using Cons.IH [of "next_state s l" "pos + length l + 1"] by auto
qed

lemma in_code_next_state:
  "snd (snd (next_state s x)) = (snd (snd s) \<noteq> is_fence x)"
  by (cases s) (simp add: next_state_def)

lemma in_code_foldl:
  "snd (snd (foldl next_state s xs)) = (snd (snd s) \<noteq> odd (length (filter is_fence xs)))"
proof (induction xs arbitrary: s)
  case Nil
  show ?case by simp
next
  case (Cons x xs)
  show ?case by (auto simp: Cons.IH in_code_next_state)
qed

lemma call_offsets_mem:
  "i < length ls \<Longrightarrow>
     (pos + line_offset ls i \<in> set (call_offsets s pos ls)) =
     is_classified (foldl next_state s (take i ls)) (ls ! i)"
proof (induction ls arbitrary: s pos i)
  case Nil
  then show ?case by simp
next
  case (Cons l ls)
  have later: "\<forall>p \<in> set (call_offsets (next_state s l) (pos + length l + 1) ls). pos < p"
    using call_offsets_ge by fastforce
  show ?case
  proof (cases i)
    case 0
    then show ?thesis using later by (auto simp: line_offset_def)
  next
    case (Suc j)
    then have j: "j < length ls" using Cons.prems by simp
    have ih: "((pos + length l + 1) + line_offset ls j \<in> set (call_offsets (next_state s l) (pos + length l + 1) ls)) =
          is_classified (foldl next_state (next_state s l) (take j ls)) (ls ! j)"
      by (rule Cons.IH [OF j])
    have eq: "pos + line_offset (l # ls) i = (pos + length l + 1) + line_offset ls j"
      using Suc by (simp add: line_offset_def)
    have ne: "(pos + length l + 1) + line_offset ls j \<noteq> pos" by simp
    have "((pos + length l + 1) + line_offset ls j \<in> set (call_offsets s pos (l # ls))) =
          ((pos + length l + 1) + line_offset ls j \<in> set (call_offsets (next_state s l) (pos + length l + 1) ls))"
      using ne by auto
    then show ?thesis unfolding eq using ih Suc by simp
  qed
qed

lemma takeWhile_indent:
  "list_all isspace indent \<Longrightarrow> \<not> isspace c \<Longrightarrow> takeWhile isspace (indent @ c # r) = indent"
  by (induction indent) auto

lemma dropWhile_indent:
  "list_all isspace indent \<Longrightarrow> \<not> isspace c \<Longrightarrow> dropWhile isspace (indent @ c # r) = c # r"
  by (induction indent) auto

lemma dropWhile_snoc_keep: "\<not> P c \<Longrightarrow> dropWhile P (xs @ [c]) \<noteq> []"
  by (induction xs) auto

lemma rstrip_nonempty: "\<not> isspace c \<Longrightarrow> rstrip (c # s) \<noteq> []"
  by (simp add: rstrip_def dropWhile_snoc_keep)

lemma strip_nonempty:
  "list_all isspace indent \<Longrightarrow> \<not> isspace c \<Longrightarrow> strip (indent @ c # r) \<noteq> []"
  by (simp add: strip_def lstrip_def dropWhile_indent rstrip_nonempty)

lemma not_space_hash: "\<not> isspace CHR ''#''"
  by (simp add: isspace_def)

lemma takeWhile_replicate:
  "w \<noteq> a \<Longrightarrow> takeWhile (\<lambda>c. c = a) (replicate n a @ w # rest) = replicate n a"
  by (induction n) auto




section \<open>Lemmas about the cursor's block and the line patterns\<close>

lemma takeWhile_stop:
  "\<forall>x \<in> set xs. P x \<Longrightarrow> ys = [] \<or> \<not> P (hd ys) \<Longrightarrow> takeWhile P (xs @ ys) = xs"
  by (induction xs) (auto simp: takeWhile_eq_Nil_iff)

lemma block_at:
  assumes "nl \<notin> set l" and "before = [] \<or> last before = nl"
    and "after = [] \<or> hd after = nl" and "j \<le> length l"
  shows "block_text (before @ l @ after) (length before + j) = l"
    and "block_position (before @ l @ after) (length before + j) = length before"
proof -
  let ?P = "\<lambda>c. c \<noteq> nl"
  have tk: "take (length before + j) (before @ l @ after) = before @ take j l"
    using assms(4) by simp
  have dr: "drop (length before + j) (before @ l @ after) = drop j l @ after"
    using assms(4) by simp
  have a: "\<forall>x \<in> set (rev (take j l)). ?P x"
    using assms(1) by (auto dest: in_set_takeD)
  have b: "rev before = [] \<or> \<not> ?P (hd (rev before))"
    using assms(2) by (auto simp: hd_rev)
  have left: "takeWhile ?P (rev (before @ take j l)) = rev (take j l)"
    using takeWhile_stop [OF a b] by simp
  have c: "\<forall>x \<in> set (drop j l). ?P x"
    using assms(1) by (auto dest: in_set_dropD)
  have d: "after = [] \<or> \<not> ?P (hd after)"
    using assms(3) by auto
  have right: "takeWhile ?P (drop j l @ after) = drop j l"
    by (rule takeWhile_stop [OF c d])
  show "block_text (before @ l @ after) (length before + j) = l"
    unfolding block_text_def tk dr left right by simp
  show "block_position (before @ l @ after) (length before + j) = length before"
    unfolding block_position_def tk left using assms(4) by simp
qed

lemma rstrip_split: "s = rstrip s @ rev (takeWhile isspace (rev s))"
proof -
  have "rstrip s @ rev (takeWhile isspace (rev s)) =
          rev (takeWhile isspace (rev s) @ dropWhile isspace (rev s))"
    unfolding rstrip_def by (simp only: rev_append)
  then show ?thesis by (simp only: takeWhile_dropWhile_id rev_rev_ident)
qed

lemma rstrip_longer:
  assumes "\<not> list_all isspace ys"
  shows "length xs < length (rstrip (xs @ ys))"
proof -
  obtain c where c: "c \<in> set (rev ys)" "\<not> isspace c"
    using assms by (auto simp: list_all_iff)
  have a: "dropWhile isspace (rev ys @ rev xs) = dropWhile isspace (rev ys) @ rev xs"
    using c by (rule dropWhile_append1)
  have b: "dropWhile isspace (rev ys) \<noteq> []"
    using c by (auto simp: dropWhile_eq_Nil_conv)
  have "length (rstrip (xs @ ys)) = length (dropWhile isspace (rev ys)) + length xs"
    unfolding rstrip_def by (simp add: a)
  then show ?thesis using b by (cases "dropWhile isspace (rev ys)") auto
qed

lemma rstrip_spaces: "list_all isspace ws \<Longrightarrow> \<not> isspace c \<Longrightarrow> rstrip (xs @ c # ws) = xs @ [c]"
proof -
  assume a: "list_all isspace ws" and b: "\<not> isspace c"
  have "dropWhile isspace (rev ws @ c # rev xs) = c # rev xs"
    using a b dropWhile_indent [of "rev ws" c "rev xs"] by (simp add: list_all_iff)
  then show ?thesis by (simp add: rstrip_def)
qed

lemma takeWhile_all: "list_all P (takeWhile P xs)"
  by (induction xs) auto

lemma not_space_marker: "m = CHR ''-'' \<or> m = CHR ''*'' \<or> m = CHR ''+'' \<Longrightarrow> \<not> isspace m"
  by (auto simp: isspace_def)

lemma not_digit_marker: "m = CHR ''-'' \<or> m = CHR ''*'' \<or> m = CHR ''+'' \<Longrightarrow> \<not> isdigit m"
  by (auto simp: isdigit_def)

lemma not_space_bracket: "\<not> isspace CHR '']''"
  by (simp add: isspace_def)

lemma task_match_line:
  assumes "list_all isspace indent" and "m = CHR ''-'' \<or> m = CHR ''*''"
    and "c = CHR ''x'' \<or> c = CHR ''X'' \<or> c = CHR '' ''" and "isspace w"
  shows "task_match (indent @ m # CHR '' '' # CHR ''['' # c # CHR '']'' # w # rest) =
           Some (indent, m, indent @ [m, CHR '' '', CHR ''['', c, CHR '']''] @ takeWhile isspace (w # rest))"
proof -
  have m: "\<not> isspace m" using assms(2) not_space_marker by blast
  show ?thesis
    unfolding task_match_def
    using assms(2,3,4) by (simp add: takeWhile_indent [OF assms(1) m] dropWhile_indent [OF assms(1) m])
qed

lemma ul_match_line:
  assumes "list_all isspace indent" and "m = CHR ''-'' \<or> m = CHR ''*'' \<or> m = CHR ''+''"
    and "isspace w"
  shows "ul_match (indent @ m # w # rest) = Some (indent, m)"
proof -
  have m: "\<not> isspace m" using assms(2) not_space_marker by blast
  show ?thesis
    unfolding ul_match_def
    using assms(2,3) by (simp add: takeWhile_indent [OF assms(1) m] dropWhile_indent [OF assms(1) m])
qed

lemma ol_match_marker:
  assumes "list_all isspace indent" and "m = CHR ''-'' \<or> m = CHR ''*'' \<or> m = CHR ''+''"
  shows "ol_match (indent @ m # r) = None"
proof -
  have m: "\<not> isspace m" using assms(2) not_space_marker by blast
  have d: "\<not> isdigit m" using assms(2) not_digit_marker by blast
  show ?thesis
    unfolding ol_match_def
    using d by (simp add: dropWhile_indent [OF assms(1) m])
qed

lemma strip_indent:
  "list_all isspace indent \<Longrightarrow> \<not> isspace c \<Longrightarrow> strip (indent @ c # r) = rstrip (c # r)"
  by (simp add: strip_def lstrip_def dropWhile_indent)

lemma insert_text_at:
  "insert_text s \<lparr>plain_text = t, anchor = p, position = p, is_fixing = f\<rparr> =
     \<lparr>plain_text = take p t @ s @ drop p t, anchor = p + length s, position = p + length s,
      is_fixing = f\<rparr>"
  by (simp add: insert_text_def Let_def)







lemma insert_text_span:
  "a \<le> p \<Longrightarrow>
   insert_text s \<lparr>plain_text = t, anchor = a, position = p, is_fixing = f\<rparr> =
     \<lparr>plain_text = take a t @ s @ drop p t, anchor = a + length s, position = a + length s,
      is_fixing = f\<rparr>"
  by (simp add: insert_text_def Let_def min_def max_def)




text \<open>
  What \<open>remove_current_line_marker\<close> does to a non-empty block, wherever the cursor is in
  it: a block with a predecessor is replaced by one empty block with the cursor in it; the
  first block of the document is replaced by two empty blocks with the cursor in the second.
\<close>

lemma remove_marker_inner_block:
  assumes ne: "l \<noteq> []" and no_nl: "nl \<notin> set l"
    and aft: "after = [] \<or> hd after = nl" and j: "j \<le> length l"
  shows "remove_current_line_marker
           \<lparr>plain_text = (pre @ [nl]) @ l @ after, anchor = a,
            position = length (pre @ [nl]) + j, is_fixing = f\<rparr> =
         \<lparr>plain_text = (pre @ [nl]) @ after, anchor = length (pre @ [nl]),
          position = length (pre @ [nl]), is_fixing = f\<rparr>"
proof -
  let ?b = "pre @ [nl]"
  have bef: "?b = [] \<or> last ?b = nl" by simp
  have bt: "block_text (?b @ l @ after) (length ?b + j) = l"
    by (rule block_at(1) [OF no_nl bef aft j])
  have bp: "block_position (?b @ l @ after) (length ?b + j) = length ?b"
    by (rule block_at(2) [OF no_nl bef aft j])
  have sel: "select_block_under_cursor
      \<lparr>plain_text = ?b @ l @ after, anchor = a, position = length ?b + j, is_fixing = f\<rparr> =
      \<lparr>plain_text = ?b @ l @ after, anchor = length ?b - 1, position = length ?b + length l,
        is_fixing = f\<rparr>"
    unfolding select_block_under_cursor_def using ne bt bp by (simp add: Let_def)
  have le: "length ?b - 1 \<le> length ?b + length l" by simp
  have tk: "take (length ?b - 1) (?b @ l @ after) = pre" by simp
  have dr: "drop (length ?b + length l) (?b @ l @ after) = after" by simp
  have rm: "remove_selected_text
      \<lparr>plain_text = ?b @ l @ after, anchor = length ?b - 1, position = length ?b + length l,
        is_fixing = f\<rparr> =
      \<lparr>plain_text = pre @ after, anchor = length pre, position = length pre, is_fixing = f\<rparr>"
    unfolding remove_selected_text_def insert_text_span [OF le] tk dr by simp
  show ?thesis
    unfolding remove_current_line_marker_def sel rm insert_block_def insert_text_at by simp
qed

lemma remove_marker_first_block:
  assumes ne: "l \<noteq> []" and no_nl: "nl \<notin> set l"
    and aft: "after = [] \<or> hd after = nl" and j: "j \<le> length l"
  shows "remove_current_line_marker
           \<lparr>plain_text = l @ after, anchor = a, position = j, is_fixing = f\<rparr> =
         \<lparr>plain_text = nl # after, anchor = 1, position = 1, is_fixing = f\<rparr>"
proof -
  have bef: "([]::string) = [] \<or> last ([]::string) = nl" by simp
  have bt: "block_text ([] @ l @ after) (length ([]::string) + j) = l"
    by (rule block_at(1) [OF no_nl bef aft j])
  have bp: "block_position ([] @ l @ after) (length ([]::string) + j) = length ([]::string)"
    by (rule block_at(2) [OF no_nl bef aft j])
  have sel: "select_block_under_cursor
      \<lparr>plain_text = l @ after, anchor = a, position = j, is_fixing = f\<rparr> =
      \<lparr>plain_text = l @ after, anchor = 0, position = length l, is_fixing = f\<rparr>"
    unfolding select_block_under_cursor_def using ne bt bp by (simp add: Let_def)
  have le: "(0::nat) \<le> length l" by simp
  have rm: "remove_selected_text
      \<lparr>plain_text = l @ after, anchor = 0, position = length l, is_fixing = f\<rparr> =
      \<lparr>plain_text = after, anchor = 0, position = 0, is_fixing = f\<rparr>"
    unfolding remove_selected_text_def insert_text_span [OF le] by simp
  show ?thesis
    unfolding remove_current_line_marker_def sel rm insert_block_def insert_text_at by simp
qed


section \<open>Properties of the Line Classifier and the Conflict Rule Table\<close>

text \<open>
  Claim C3, as amended. A line that consists of indentation, one to six hash signs and a
  whitespace character (followed by anything) is classified as \<open>Text\<close>, the tag of plain
  text: the heading rule of \<open>identify_block_type\<close> returns the string \<^verbatim>\<open>'text'\<close>, and the
  classifier has no tag of its own for headings.
\<close>

theorem heading_line_classified_as_text:
  assumes "list_all isspace indent" and "1 \<le> n" and "n \<le> 6" and "isspace w"
  shows "identify_block_type (indent @ replicate n CHR ''#'' @ w # rest) = Text"
proof -
  obtain m where n: "n = Suc m" using assms(2) by (cases n) auto
  let ?clean = "replicate n CHR ''#'' @ w # rest"
  have w: "w \<noteq> CHR ''#''" using assms(4) not_space_hash by auto
  have clean: "lstrip (indent @ ?clean) = ?clean"
    using assms(1) n not_space_hash
      dropWhile_indent [of indent "CHR ''#''" "replicate m CHR ''#'' @ w # rest"]
    by (simp add: lstrip_def)
  have ne: "strip ?clean \<noteq> []"
    using n strip_nonempty [of "[]" "CHR ''#''"] not_space_hash by simp
  have tw: "takeWhile (\<lambda>c. c = CHR ''#'') ?clean = replicate n CHR ''#''"
    using w by (rule takeWhile_replicate)
  have "heading_re ?clean"
    using assms(2,3,4) unfolding heading_re_def tw by simp
  then show ?thesis
    using clean ne unfolding identify_block_type_def by (simp add: Let_def)
qed

theorem heading_line_classified_as_text_witness:
  "list_all isspace ''  '' \<and> (1::nat) \<le> 2 \<and> (2::nat) \<le> 6 \<and> isspace CHR '' '' \<and>
   identify_block_type (''  '' @ replicate 2 CHR ''#'' @ CHR '' '' # ''Title'') = Text"
proof -
  have h: "list_all isspace ''  ''" "isspace CHR '' ''"
    by (simp_all add: isspace_def)
  show ?thesis
    using h heading_line_classified_as_text [OF h(1) _ _ h(2), of 2 "''Title''"] by simp
qed

text \<open>
  Claim C3, as stated, fails: the heading line \<^verbatim>\<open># Title\<close> receives the same tag as the
  plain line \<^verbatim>\<open>Title\<close>.
\<close>

theorem heading_tag_counterexample:
  "identify_block_type ''# Title'' = Text \<and> identify_block_type ''Title'' = Text"
  by code_simp

text \<open>
  Claim C4. When the previous line is classified as plain text and the current line as a
  list item (unordered, ordered or task), \<open>check_conflict\<close> is true whatever the two
  indents are; and the repair of the two blocks \<^verbatim>\<open>Some text\<close>, \<^verbatim>\<open>- item one\<close> yields the
  three blocks \<^verbatim>\<open>Some text\<close>, the empty block and \<^verbatim>\<open>- item one\<close>, wherever the cursor is.
\<close>

theorem text_then_list_needs_separator:
  "(identify_block_type prv = Text \<and> identify_block_type cur \<in> {Ul, Ol, Task} \<longrightarrow>
      check_conflict (identify_block_type prv) (identify_block_type cur) i1 i2) \<and>
   split_lines (plain_text (auto_fix_spacing
      \<lparr>plain_text = ''Some text\<newline>- item one'', anchor = a, position = p, is_fixing = False\<rparr>))
     = [''Some text'', [], ''- item one'']"
proof -
  have "split_lines (repaired_text ''Some text\<newline>- item one'') = [''Some text'', [], ''- item one'']"
    by code_simp
  then show ?thesis
    by (auto simp: auto_fix_spacing_text check_conflict_def list_types_def)
qed

theorem text_then_list_needs_separator_witness:
  "identify_block_type ''Some text'' = Text \<and> identify_block_type ''  1. one'' \<in> {Ul, Ol, Task} \<and>
   check_conflict (identify_block_type ''Some text'') (identify_block_type ''  1. one'')
     (get_indent ''Some text'') (get_indent ''  1. one'')"
proof -
  have h: "identify_block_type ''Some text'' = Text \<and> identify_block_type ''  1. one'' \<in> {Ul, Ol, Task}"
    by code_simp
  show ?thesis
    using h text_then_list_needs_separator [of "''Some text''" "''  1. one''"
        "get_indent ''Some text''" "get_indent ''  1. one''" 0 0]
    by simp
qed

text \<open>
  Claim C5. When the previous line is classified as a list item and the current line as
  plain text, \<open>check_conflict\<close> is true exactly when the current indent is at most the
  previous indent; and the pass finds no insertion position in the two blocks \<^verbatim>\<open>- item\<close>,
  \<^verbatim>\<open>  continued text\<close> and leaves the widget as it is.
\<close>

theorem list_then_text_separator_iff_indent:
  "(identify_block_type prv \<in> {Ul, Ol, Task} \<and> identify_block_type cur = Text \<longrightarrow>
      check_conflict (identify_block_type prv) (identify_block_type cur) i1 i2 = (i2 \<le> i1)) \<and>
   insert_positions_of ''- item\<newline>  continued text'' = [] \<and>
   auto_fix_spacing \<lparr>plain_text = ''- item\<newline>  continued text'', anchor = a, position = p, is_fixing = f\<rparr>
     = \<lparr>plain_text = ''- item\<newline>  continued text'', anchor = a, position = p, is_fixing = f\<rparr>"
proof -
  have e: "insert_positions_of ''- item\<newline>  continued text'' = []"
    by code_simp
  show ?thesis
    using e by (auto simp: auto_fix_spacing_def check_conflict_def list_types_def)
qed

theorem list_then_text_separator_iff_indent_witness:
  "identify_block_type ''- item'' \<in> {Ul, Ol, Task} \<and>
   identify_block_type ''  continued text'' = Text \<and>
   get_indent ''- item'' = 0 \<and> get_indent ''  continued text'' = 2 \<and>
   \<not> check_conflict (identify_block_type ''- item'') (identify_block_type ''  continued text'')
       (get_indent ''- item'') (get_indent ''  continued text'')"
proof -
  have h: "identify_block_type ''- item'' \<in> {Ul, Ol, Task} \<and>
           identify_block_type ''  continued text'' = Text \<and>
           get_indent ''- item'' = 0 \<and> get_indent ''  continued text'' = 2"
    by code_simp
  show ?thesis
    using h list_then_text_separator_iff_indent [of "''- item''" "''  continued text''"
        "get_indent ''- item''" "get_indent ''  continued text''" 0 0 False]
    by simp
qed


section \<open>Properties of the List Continuation Controller\<close>

text \<open>
  Claim C6. Let the cursor's block be a task item with content: indentation, a bullet \<^verbatim>\<open>-\<close>
  or \<^verbatim>\<open>*\<close>, a space, a checkbox holding \<^verbatim>\<open>x\<close>, \<^verbatim>\<open>X\<close> or a space, a whitespace
  character, and a rest that is not all whitespace. With the cursor at the end of that block
  and no selection, Return (or Enter) inserts behind the block a new block made of the same
  indentation, the same bullet and the unchecked marker \<^verbatim>\<open>[ ]\<close> followed by a space,
  whatever the old checkbox held, and puts the cursor behind the new marker. The text in
  front of the block and behind it is unchanged.
\<close>

theorem task_line_break_continues_list:
  assumes ind: "list_all isspace indent"
    and mk: "m = CHR ''-'' \<or> m = CHR ''*''"
    and ck: "c = CHR ''x'' \<or> c = CHR ''X'' \<or> c = CHR '' ''"
    and ws: "isspace w"
    and content: "\<not> list_all isspace rest"
    and line: "l = indent @ m # CHR '' '' # CHR ''['' # c # CHR '']'' # w # rest"
    and no_nl: "nl \<notin> set l"
    and bef: "before = [] \<or> last before = nl"
    and aft: "after = [] \<or> hd after = nl"
    and key: "k = Key_Return \<or> k = Key_Enter"
  shows "keyPressEvent k
           \<lparr>plain_text = before @ l @ after, anchor = length before + length l,
            position = length before + length l, is_fixing = f\<rparr> =
         Handled
           \<lparr>plain_text = before @ l @ [nl] @ (indent @ [m] @ '' [ ] '') @ after,
            anchor = length before + length l + 1 + (length indent + 6),
            position = length before + length l + 1 + (length indent + 6), is_fixing = f\<rparr>"
proof -
  let ?e = "\<lparr>plain_text = before @ l @ after, anchor = length before + length l,
            position = length before + length l, is_fixing = f\<rparr>"
  let ?mark = "[m, CHR '' '', CHR ''['', c]"
  have m: "\<not> isspace m" using mk not_space_marker by blast
  have bt: "block_text (before @ l @ after) (length before + length l) = l"
    by (rule block_at(1) [OF no_nl bef aft]) simp
  have tm: "task_match l = Some (indent, m, indent @ [m, CHR '' '', CHR ''['', c, CHR '']''] @ takeWhile isspace (w # rest))"
    unfolding line by (rule task_match_line [OF ind mk ck ws])
  have sp: "isspace CHR '' ''" by (simp add: isspace_def)
  have mk3: "m = CHR ''-'' \<or> m = CHR ''*'' \<or> m = CHR ''+''" using mk by blast
  have um: "ul_match l = Some (indent, m)"
    unfolding line by (rule ul_match_line [OF ind mk3 sp])
  have om: "ol_match l = None"
    unfolding line by (rule ol_match_marker [OF ind mk3])
  have g0: "strip (indent @ [m, CHR '' '', CHR ''['', c, CHR '']''] @ takeWhile isspace (w # rest)) = ?mark @ [CHR '']'']"
  proof -
    have "strip (indent @ m # ([CHR '' '', CHR ''['', c, CHR '']''] @ takeWhile isspace (w # rest)))
        = rstrip (m # ([CHR '' '', CHR ''['', c, CHR '']''] @ takeWhile isspace (w # rest)))"
      by (rule strip_indent [OF ind m])
    moreover have "rstrip (?mark @ CHR '']'' # takeWhile isspace (w # rest)) = ?mark @ [CHR '']'']"
      by (rule rstrip_spaces [OF takeWhile_all not_space_bracket])
    ultimately show ?thesis by simp
  qed
  have sl: "strip l = rstrip ((?mark @ [CHR '']'']) @ (w # rest))"
    unfolding line using strip_indent [OF ind m] by simp
  have "\<not> list_all isspace (w # rest)" using content by simp
  then have long: "length (?mark @ [CHR '']'']) < length (strip l)"
    unfolding sl by (rule rstrip_longer)
  obtain g0 where tm': "task_match l = Some (indent, m, g0)"
    and g0': "length (strip g0) = length (?mark @ [CHR '']''])"
    using tm g0 by simp
  have c1: "length (strip l) \<noteq> length (strip g0)" using long g0' by simp
  have c2: "strip l \<noteq> [m]" using long by auto
  have kp: "keyPressEvent k ?e = Handled (insert_new_line_with_prefix (indent @ [m] @ '' [ ] '') ?e)"
    unfolding keyPressEvent_def using key c1 c2
    by (simp add: bt tm' um om Let_def)
  have "insert_new_line_with_prefix (indent @ [m] @ '' [ ] '') ?e =
         \<lparr>plain_text = before @ l @ [nl] @ (indent @ [m] @ '' [ ] '') @ after,
            anchor = length before + length l + 1 + (length indent + 6),
            position = length before + length l + 1 + (length indent + 6), is_fixing = f\<rparr>"
    by (simp add: insert_new_line_with_prefix_def insert_text_at)
  then show ?thesis using kp by simp
qed

theorem task_line_break_continues_list_witness:
  "keyPressEvent Key_Return
     \<lparr>plain_text = ''- [x] buy milk'', anchor = 14, position = 14, is_fixing = False\<rparr> =
   Handled \<lparr>plain_text = ''- [x] buy milk\<newline>- [ ] '', anchor = 21, position = 21, is_fixing = False\<rparr>"
proof -
  have h: "list_all isspace []" "CHR ''-'' = CHR ''-'' \<or> CHR ''-'' = CHR ''*''"
    "CHR ''x'' = CHR ''x'' \<or> CHR ''x'' = CHR ''X'' \<or> CHR ''x'' = CHR '' ''"
    "isspace CHR '' ''" "\<not> list_all isspace ''buy milk''"
    "''- [x] buy milk'' = [] @ CHR ''-'' # CHR '' '' # CHR ''['' # CHR ''x'' # CHR '']'' # CHR '' '' # ''buy milk''"
    "nl \<notin> set ''- [x] buy milk''" "([]::string) = [] \<or> last [] = nl" "([]::string) = [] \<or> hd [] = nl"
    "Key_Return = Key_Return \<or> Key_Return = Key_Enter"
    by (simp_all add: isspace_def nl_def)
  show ?thesis
    using task_line_break_continues_list [OF h, of False] by (simp add: nl_def eval_nat_numeral)
qed

text \<open>
  Claim C7 on the first block of a document. \<open>remove_current_line_marker\<close> selects the
  block under the cursor, removes the selection and inserts a block. When the block has a
  predecessor, the selection includes the separator in front of the block, so the inserted
  block takes the place of the removed one (lemma \<open>remove_marker_inner_block\<close>): in the
  second example the bare item between \<^verbatim>\<open>a\<close> and \<^verbatim>\<open>b\<close> becomes one empty block. The
  first block of a document has no separator in front of it (lemma
  \<open>remove_marker_first_block\<close>); there the bare item \<^verbatim>\<open>- \<close> is emptied and a second empty
  block is added behind it, so the one block of the first example becomes two empty blocks.
\<close>

theorem bare_marker_on_first_block:
  "keyPressEvent Key_Return \<lparr>plain_text = ''- '', anchor = 2, position = 2, is_fixing = False\<rparr> =
     Handled \<lparr>plain_text = ''\<newline>'', anchor = 1, position = 1, is_fixing = False\<rparr> \<and>
   split_lines ''- '' = [''- ''] \<and> split_lines ''\<newline>'' = [[], []] \<and>
   keyPressEvent Key_Return \<lparr>plain_text = ''a\<newline>- \<newline>b'', anchor = 4, position = 4, is_fixing = False\<rparr> =
     Handled \<lparr>plain_text = ''a\<newline>\<newline>b'', anchor = 2, position = 2, is_fixing = False\<rparr> \<and>
   split_lines ''a\<newline>- \<newline>b'' = [''a'', ''- '', ''b''] \<and> split_lines ''a\<newline>\<newline>b'' = [''a'', [], ''b'']"
  by code_simp


section \<open>Properties of the Task Toggle Controller\<close>





section \<open>Properties of the Boundary Repair Pass\<close>





text \<open>
  Claim C9. The flag \<^verbatim>\<open>in_code_block\<close> is flipped by every fence line (a block whose
  stripped text starts with three backticks) and by nothing else, so a block lies between
  an opening fence and the fence that closes it exactly when the number of fence lines in
  front of it is odd. For a block that is no fence line itself: its position is in the log
  of classifier calls exactly when that number is even, and when the number is odd its
  position is neither classified nor recorded as an insertion position.
\<close>

theorem code_fence_opacity:
  assumes "i < length (split_lines t)"
    and "\<not> is_fence (split_lines t ! i)"
  shows "(line_offset (split_lines t) i \<in> set (classifier_calls_of t)) =
           even (fences_before (split_lines t) i) \<and>
         (odd (fences_before (split_lines t) i) \<longrightarrow>
            line_offset (split_lines t) i \<notin> set (classifier_calls_of t) \<and>
            line_offset (split_lines t) i \<notin> set (insert_positions_of t))"
proof -
  let ?ls = "split_lines t"
  let ?s = "foldl next_state (Empty, 0, False) (take i ?ls)"
  have "(0 + line_offset ?ls i \<in> set (call_offsets (Empty, 0, False) 0 ?ls)) =
          is_classified ?s (?ls ! i)"
    by (rule call_offsets_mem [OF assms(1)])
  moreover have "snd (snd ?s) = odd (fences_before ?ls i)"
    by (simp add: in_code_foldl fences_before_def)
  ultimately have a: "(line_offset ?ls i \<in> set (classifier_calls_of t)) = even (fences_before ?ls i)"
    using assms(2) by (cases ?s) (simp add: classifier_calls_of_offsets is_classified_def)
  have "odd (fences_before ?ls i) \<Longrightarrow> line_offset ?ls i \<notin> set (insert_positions_of t)"
    using a offsets_subset_calls [of "(Empty, 0, False)" 0 ?ls]
    by (auto simp: insert_positions_of_offsets classifier_calls_of_offsets)
  then show ?thesis using a by auto
qed

theorem code_fence_opacity_witness:
  "2 < length (split_lines fenced_doc) \<and>
   split_lines fenced_doc ! 2 = ''- b'' \<and>
   \<not> is_fence (split_lines fenced_doc ! 2) \<and>
   odd (fences_before (split_lines fenced_doc) 2) \<and>
   line_offset (split_lines fenced_doc) 2 \<notin> set (classifier_calls_of fenced_doc) \<and>
   line_offset (split_lines fenced_doc) 2 \<notin> set (insert_positions_of fenced_doc)"
proof -
  have h1: "2 < length (split_lines fenced_doc)" by code_simp
  have h2: "\<not> is_fence (split_lines fenced_doc ! 2)" by code_simp
  have h3: "split_lines fenced_doc ! 2 = ''- b''" by code_simp
  have h4: "odd (fences_before (split_lines fenced_doc) 2)" by code_simp
  show ?thesis using h1 h2 h3 h4 code_fence_opacity [OF h1 h2] by blast
qed



end
